theory Spec2Isabelle
  imports Main "HOL-Library.AList"
begin

section \<open>Data model\<close>

text \<open>
  The cache of \<^verbatim>\<open>index.js\<close> keeps its items in one JavaScript object, \<^verbatim>\<open>this.$\<close>,
  from key to item. Each method is modelled as a function from the store (and, where
  the method reads \<^verbatim>\<open>_timeNow()\<close>, the clock) to its result and the store
  afterwards; a thrown error is the result \<open>Inl\<close>. Payloads, the \<^verbatim>\<open>default\<close> option
  and the value returned by \<^verbatim>\<open>get\<close> are arbitrary JavaScript values; numbers are
  modelled as integers (Unix times in seconds), strings as lists of code units below
  256. The options of a method are a record of the documented fields, an absent number
  being \<open>None\<close>. The calls of the optional logger, the timer of the periodic sweep
  (\<^verbatim>\<open>gcStart\<close>, \<^verbatim>\<open>gcStop\<close>, \<^verbatim>\<open>gcStatus\<close>), \<^verbatim>\<open>spawn\<close> and the constructor
  are left out; none of them changes the \<^verbatim>\<open>this.$\<close> of an existing cache.
\<close>

datatype jsval =
    JUndefined
  | JNull
  | JBool bool
  | JNum int
  | JStr string
  | JBigInt int
  | JArr "jsval list"
  | JObj "(string \<times> jsval) list"

text \<open>The \<^verbatim>\<open>tags\<close> field of an item: \<^verbatim>\<open>false\<close> or an array of strings.\<close>

datatype item_tags = TagsFalse | TagsArr "string list"

text \<open>
  The \<^verbatim>\<open>expires\<close> field of an item: \<^verbatim>\<open>false\<close> (never expires), a number, or
  no field at all (\<^verbatim>\<open>undefined\<close>, as in the imported state of \<^verbatim>\<open>test.js\<close>).
\<close>

datatype expiry = ExpFalse | ExpUndefined | ExpNum int

record item =
  key :: string
  payload :: jsval
  tags :: item_tags
  expires :: expiry
  created :: int

text \<open>
  The store, as the list of the own properties of \<^verbatim>\<open>this.$\<close> in insertion order (the
  rule that integer-like keys are listed first is left out). A JavaScript object has
  each key once, which is the invariant \<open>wf_store\<close>.
\<close>

type_synonym store = "(string \<times> item) list"

definition wf_store :: "store \<Rightarrow> bool" where
  "wf_store s = distinct (map fst s)"

datatype error = InvalidInput | InvalidImportType | TypeError | SyntaxError

text \<open>
  The object \<^verbatim>\<open>this.$\<close> has no prototype when the constructor or \<^verbatim>\<open>clear()\<close> made it
  with \<^verbatim>\<open>Object.create(null)\<close>, and is a plain object, which inherits the properties
  of \<^verbatim>\<open>Object.prototype\<close>, when it came from \<^verbatim>\<open>import()\<close> or \<^verbatim>\<open>opts.state\<close>.
  \<^verbatim>\<open>import(null)\<close> and \<^verbatim>\<open>dispose()\<close> leave \<^verbatim>\<open>null\<close> there, and \<^verbatim>\<open>import\<close> of a value
  of another shape leaves that value, of which the model keeps nothing.
\<close>

datatype proto = NullProto | ObjectProto

datatype dollar = Items proto store | NullValue | OtherValue

text \<open>
  The names of the properties of \<^verbatim>\<open>Object.prototype\<close>. On a plain object
  \<^verbatim>\<open>obj[name]\<close> finds for each of them, unless the object has a property of its own
  under the name, a function (for \<^verbatim>\<open>__proto__\<close> the prototype itself), which is
  truthy; and the assignment \<^verbatim>\<open>obj['__proto__'] = v\<close> stores no property: it sets the
  prototype when \<^verbatim>\<open>v\<close> is an object or \<^verbatim>\<open>null\<close>, and does nothing otherwise.
\<close>

definition object_prototype_keys :: "string list" where
  "object_prototype_keys =
     [''constructor'', ''__defineGetter__'', ''__defineSetter__'', ''hasOwnProperty'',
      ''__lookupGetter__'', ''__lookupSetter__'', ''isPrototypeOf'',
      ''propertyIsEnumerable'', ''toString'', ''valueOf'', ''__proto__'',
      ''toLocaleString'']"

text \<open>
  The methods of the sections that follow are modelled on the list of the own
  properties of \<^verbatim>\<open>this.$\<close>: that is all they read and write when \<^verbatim>\<open>this.$\<close> has
  no prototype, and on a plain object too for the keys that it holds. \<^verbatim>\<open>delete\<close>,
  \<^verbatim>\<open>clear\<close>, \<^verbatim>\<open>dispose\<close> and \<^verbatim>\<open>import\<close> are modelled with the kind of prototype.
\<close>

text \<open>Truthiness of an optional number: \<^verbatim>\<open>undefined\<close> and \<^verbatim>\<open>0\<close> are falsy.\<close>

definition truthy :: "int option \<Rightarrow> bool" where
  "truthy x = (case x of None \<Rightarrow> False | Some n \<Rightarrow> n \<noteq> 0)"

section \<open>Getters\<close>

record get_opts =
  dflt :: jsval
  maxAge :: "int option"
  force :: bool

definition defaultOrNull :: "get_opts \<Rightarrow> jsval" where
  "defaultOrNull opts = (if dflt opts \<noteq> JUndefined then dflt opts else JNull)"

text \<open>
  \<^verbatim>\<open>get(key, opts)\<close>, with the clock reading \<open>now\<close> of \<^verbatim>\<open>_timeNow()\<close> as a
  parameter. The method only reads \<^verbatim>\<open>this.$\<close>; the store is returned as it was.
\<close>

definition get :: "string \<Rightarrow> get_opts \<Rightarrow> int \<Rightarrow> store \<Rightarrow> jsval \<times> store" where
  "get k opts now s =
     (case map_of s k of
        None \<Rightarrow> (defaultOrNull opts, s)
      | Some it \<Rightarrow>
          if force opts then (payload it, s)
          else if truthy (maxAge opts) then
            (if the (maxAge opts) > now - created it then (payload it, s)
             else (defaultOrNull opts, s))
          else if expires it = ExpFalse then (payload it, s)
          else if (case expires it of ExpNum t \<Rightarrow> t \<noteq> 0 \<and> t > now | _ \<Rightarrow> False)
            then (payload it, s)
          else (defaultOrNull opts, s))"

definition getMeta :: "string \<Rightarrow> store \<Rightarrow> item option" where
  "getMeta k s = map_of s k"

section \<open>Garbage collection\<close>

text \<open>\<^verbatim>\<open>Object.keys(this.$)\<close>, which is what \<^verbatim>\<open>this.keys()\<close> without argument returns.\<close>

definition object_keys :: "store \<Rightarrow> string list" where
  "object_keys s = map fst s"

text \<open>The test \<^verbatim>\<open>cached.expires && now > cached.expires\<close>.\<close>

definition is_expired :: "int \<Rightarrow> item \<Rightarrow> bool" where
  "is_expired now cached =
     (case expires cached of ExpNum t \<Rightarrow> t \<noteq> 0 \<and> now > t | _ \<Rightarrow> False)"

fun deleteExpired_loop ::
  "int \<Rightarrow> string list \<Rightarrow> store \<Rightarrow> nat \<Rightarrow> (error + nat) \<times> store" where
  "deleteExpired_loop now [] s expired = (Inr expired, s)"
| "deleteExpired_loop now (k # ks) s expired =
     (case map_of s k of
        None \<Rightarrow> (Inl TypeError, s)
      | Some cached \<Rightarrow>
          if is_expired now cached
          then deleteExpired_loop now ks (AList.delete k s) (expired + 1)
          else deleteExpired_loop now ks s expired)"

definition deleteExpired :: "int \<Rightarrow> store \<Rightarrow> (error + nat) \<times> store" where
  "deleteExpired now s = deleteExpired_loop now (object_keys s) s 0"

text \<open>\<^verbatim>\<open>keys(validOnly)\<close> and \<^verbatim>\<open>count(validOnly)\<close>.\<close>

definition keys :: "bool \<Rightarrow> int \<Rightarrow> store \<Rightarrow> (error + string list) \<times> store" where
  "keys validOnly now s =
     (if validOnly then
        (case deleteExpired now s of
           (Inl e, s') \<Rightarrow> (Inl e, s')
         | (Inr n, s') \<Rightarrow> (Inr (object_keys s'), s'))
      else (Inr (object_keys s), s))"

definition count :: "bool \<Rightarrow> int \<Rightarrow> store \<Rightarrow> (error + nat) \<times> store" where
  "count validOnly now s =
     (if validOnly then
        (case deleteExpired now s of
           (Inl e, s') \<Rightarrow> (Inl e, s')
         | (Inr n, s') \<Rightarrow> (Inr (length (object_keys s')), s'))
      else (Inr (length (object_keys s)), s))"

text \<open>
  \<^verbatim>\<open>clear()\<close> and \<^verbatim>\<open>dispose()\<close> replace the value of \<^verbatim>\<open>this.$\<close> (the timer that
  \<^verbatim>\<open>dispose\<close> stops is left out).
\<close>

definition clear :: "dollar \<Rightarrow> unit \<times> dollar" where
  "clear d = ((), Items NullProto [])"

definition dispose :: "dollar \<Rightarrow> unit \<times> dollar" where
  "dispose d = ((), NullValue)"

section \<open>Key and tag parameters\<close>

text \<open>
  The argument of \<^verbatim>\<open>_paramArray\<close>: a string, an array of strings, or a value of
  any other type, of which the code only observes that it is neither (and, in
  \<^verbatim>\<open>set\<close>, whether it is truthy).
\<close>

datatype param =
    PStr string
  | PArr "string list"
  | PUndefined
  | PNull
  | PBool bool
  | PNum int
  | PObj

definition param_truthy :: "param \<Rightarrow> bool" where
  "param_truthy p =
     (case p of
        PStr str \<Rightarrow> str \<noteq> []
      | PArr a \<Rightarrow> True
      | PUndefined \<Rightarrow> False
      | PNull \<Rightarrow> False
      | PBool b \<Rightarrow> b
      | PNum n \<Rightarrow> n \<noteq> 0
      | PObj \<Rightarrow> True)"

text \<open>The characters that the regular expression class \<^verbatim>\<open>\s\<close> and \<^verbatim>\<open>trim()\<close> take for white space, among the code units below 256.\<close>

definition is_space :: "char \<Rightarrow> bool" where
  "is_space c = (c \<in> set [CHR 0x09, CHR 0x0A, CHR 0x0B, CHR 0x0C, CHR 0x0D, CHR 0x20, CHR 0xA0])"

text \<open>\<^verbatim>\<open>input.replace(/\s+/g, ' ')\<close>: every maximal run of white space becomes one blank. The flag says that the previous character was white space.\<close>

fun replace_ws :: "bool \<Rightarrow> string \<Rightarrow> string" where
  "replace_ws in_run [] = []"
| "replace_ws in_run (c # cs) =
     (if is_space c then
        (if in_run then replace_ws True cs else CHR '' '' # replace_ws True cs)
      else c # replace_ws False cs)"

definition trim :: "string \<Rightarrow> string" where
  "trim str = rev (dropWhile is_space (rev (dropWhile is_space str)))"

text \<open>\<^verbatim>\<open>str.split(' ')\<close>: the pieces between blanks; the empty string gives one empty piece.\<close>

fun split_blank :: "string \<Rightarrow> string list" where
  "split_blank [] = [[]]"
| "split_blank (c # cs) =
     (if c = CHR '' '' then [] # split_blank cs
      else (case split_blank cs of
              [] \<Rightarrow> [[c]]
            | w # ws \<Rightarrow> (c # w) # ws))"

definition paramArray :: "param \<Rightarrow> error + string list" where
  "paramArray input =
     (case input of
        PStr str \<Rightarrow> Inr (split_blank (trim (replace_ws False str)))
      | PArr a \<Rightarrow> Inr a
      | _ \<Rightarrow> Inl InvalidInput)"

fun itemHasAllTags :: "item \<Rightarrow> string list \<Rightarrow> error + bool" where
  "itemHasAllTags it [] = Inr True"
| "itemHasAllTags it (tag # ts) =
     (case tags it of
        TagsFalse \<Rightarrow> Inl TypeError
      | TagsArr a \<Rightarrow> if tag \<notin> set a then Inr False else itemHasAllTags it ts)"

fun itemHasAnyTag :: "item \<Rightarrow> string list \<Rightarrow> error + bool" where
  "itemHasAnyTag it [] = Inr False"
| "itemHasAnyTag it (tag # ts) =
     (case tags it of
        TagsFalse \<Rightarrow> Inl TypeError
      | TagsArr a \<Rightarrow> if tag \<in> set a then Inr True else itemHasAnyTag it ts)"

section \<open>Setter and deleter\<close>

record set_opts =
  expireIn :: "int option"
  expireAt :: "int option"
  opt_tags :: param

definition set_item ::
  "string \<Rightarrow> jsval \<Rightarrow> set_opts \<Rightarrow> int \<Rightarrow> store \<Rightarrow> (error + bool) \<times> store" where
  "set_item k p opts now s =
     (case (if param_truthy (opt_tags opts)
            then map_sum id TagsArr (paramArray (opt_tags opts))
            else Inr TagsFalse) of
        Inl e \<Rightarrow> (Inl e, s)
      | Inr tgs \<Rightarrow>
          (Inr True,
           AList.update k
             \<lparr>key = k,
              payload = p,
              tags = tgs,
              expires =
                (if truthy (expireIn opts) then ExpNum (now + the (expireIn opts))
                 else if truthy (expireAt opts) then ExpNum (the (expireAt opts))
                 else ExpFalse),
              created = now\<rparr> s))"

text \<open>
  \<^verbatim>\<open>delete(keys)\<close>. The test \<^verbatim>\<open>!this.$[key]\<close> finds an item of the store, which is
  an object and truthy, or on a plain object an inherited property, which is truthy
  too; \<^verbatim>\<open>delete this.$[key]\<close> removes an own property and nothing else, and the
  counter goes up in both cases.
\<close>

fun delete_loop :: "proto \<Rightarrow> string list \<Rightarrow> store \<Rightarrow> nat \<Rightarrow> nat \<times> store" where
  "delete_loop pr [] s n = (n, s)"
| "delete_loop pr (k # ks) s n =
     (if map_of s k = None \<and> \<not> (pr = ObjectProto \<and> k \<in> set object_prototype_keys)
      then delete_loop pr ks s n
      else delete_loop pr ks (AList.delete k s) (n + 1))"

definition delete :: "param \<Rightarrow> proto \<Rightarrow> store \<Rightarrow> (error + nat) \<times> store" where
  "delete ks pr s =
     (case paramArray ks of
        Inl e \<Rightarrow> (Inl e, s)
      | Inr ka \<Rightarrow> (case delete_loop pr ka s 0 of (n, s') \<Rightarrow> (Inr n, s')))"


section \<open>Tags\<close>

record tag_opts =
  opt_all :: bool
  opt_meta :: bool

text \<open>
  An entry of the object that \<^verbatim>\<open>getTagged\<close> returns: the payload, or with
  \<^verbatim>\<open>meta\<close> the item. The object is a plain one (\<^verbatim>\<open>const items = {}\<close>), given by
  the list of its own properties: the assignment \<^verbatim>\<open>items[key] = ...\<close> stores nothing
  when the key is \<^verbatim>\<open>__proto__\<close>.
\<close>

datatype tagged = TPayload jsval | TMeta item

fun getTagged_loop ::
  "bool \<Rightarrow> bool \<Rightarrow> string list \<Rightarrow> string list \<Rightarrow> store \<Rightarrow> (string \<times> tagged) list
     \<Rightarrow> error + (string \<times> tagged) list" where
  "getTagged_loop al mt tgs [] s items = Inr items"
| "getTagged_loop al mt tgs (k # ks) s items =
     (case map_of s k of
        None \<Rightarrow> Inl TypeError
      | Some it \<Rightarrow>
          if tags it = TagsFalse then getTagged_loop al mt tgs ks s items
          else
            (case (if al then itemHasAllTags it tgs else itemHasAnyTag it tgs) of
               Inl e \<Rightarrow> Inl e
             | Inr b \<Rightarrow>
                 if \<not> b then getTagged_loop al mt tgs ks s items
                 else getTagged_loop al mt tgs ks s
                        (if k = ''__proto__'' then items
                         else AList.update k
                                (if mt then TMeta it else TPayload (payload it)) items)))"

definition getTagged ::
  "param \<Rightarrow> tag_opts \<Rightarrow> store \<Rightarrow> (error + (string \<times> tagged) list) \<times> store" where
  "getTagged tgs opts s =
     (case paramArray tgs of
        Inl e \<Rightarrow> (Inl e, s)
      | Inr ta \<Rightarrow> (getTagged_loop (opt_all opts) (opt_meta opts) ta (object_keys s) s [], s))"

fun deleteItemsTagged_loop ::
  "bool \<Rightarrow> string list \<Rightarrow> string list \<Rightarrow> store \<Rightarrow> nat \<Rightarrow> (error + nat) \<times> store" where
  "deleteItemsTagged_loop allTags tgs [] s removed = (Inr removed, s)"
| "deleteItemsTagged_loop allTags tgs (k # ks) s removed =
     (case map_of s k of
        None \<Rightarrow> (Inl TypeError, s)
      | Some it \<Rightarrow>
          if tags it = TagsFalse then deleteItemsTagged_loop allTags tgs ks s removed
          else
            (case (if allTags then itemHasAllTags it tgs else itemHasAnyTag it tgs) of
               Inl e \<Rightarrow> (Inl e, s)
             | Inr b \<Rightarrow>
                 if \<not> b then deleteItemsTagged_loop allTags tgs ks s removed
                 else deleteItemsTagged_loop allTags tgs ks (AList.delete k s) (removed + 1)))"

definition deleteItemsTagged ::
  "param \<Rightarrow> bool \<Rightarrow> store \<Rightarrow> (error + string list \<times> nat) \<times> store" where
  "deleteItemsTagged tgs allTags s =
     (case paramArray tgs of
        Inl e \<Rightarrow> (Inl e, s)
      | Inr ta \<Rightarrow>
          (case deleteItemsTagged_loop allTags ta (object_keys s) s 0 of
             (Inl e, s') \<Rightarrow> (Inl e, s')
           | (Inr removed, s') \<Rightarrow> (Inr (ta, removed), s')))"

definition deleteTagged :: "param \<Rightarrow> tag_opts \<Rightarrow> store \<Rightarrow> (error + nat) \<times> store" where
  "deleteTagged tgs opts s =
     (case deleteItemsTagged tgs (opt_all opts) s of
        (Inl e, s') \<Rightarrow> (Inl e, s')
      | (Inr (tagsArr, removed), s') \<Rightarrow> (Inr removed, s'))"

definition trigger :: "param \<Rightarrow> tag_opts \<Rightarrow> store \<Rightarrow> (error + nat) \<times> store" where
  "trigger tgs opts s =
     (case deleteItemsTagged tgs (opt_all opts) s of
        (Inl e, s') \<Rightarrow> (Inl e, s')
      | (Inr (tagsArr, removed), s') \<Rightarrow> (Inr removed, s'))"

text \<open>
  \<^verbatim>\<open>tags(validOnly)\<close>, the number of items per tag, in a plain object
  (\<^verbatim>\<open>const tags = {}\<close>) given by the list of its own properties; \<open>None\<close> is the
  number \<^verbatim>\<open>NaN\<close>. For a tag named like a property of \<^verbatim>\<open>Object.prototype\<close> the test
  \<^verbatim>\<open>if(tags[tag])\<close> finds the inherited value first, and \<^verbatim>\<open>tags[tag]++\<close> then stores
  \<^verbatim>\<open>NaN\<close>, or nothing under \<^verbatim>\<open>__proto__\<close>.
\<close>

definition tags_bump :: "string \<Rightarrow> (string \<times> nat option) list \<Rightarrow> (string \<times> nat option) list" where
  "tags_bump tag tgs =
     (case map_of tgs tag of
        Some (Some n) \<Rightarrow>
          if n \<noteq> 0 then AList.update tag (Some (n + 1)) tgs
          else AList.update tag (Some 1) tgs
      | Some None \<Rightarrow> AList.update tag (Some 1) tgs
      | None \<Rightarrow>
          if tag \<in> set object_prototype_keys then
            (if tag = ''__proto__'' then tgs else AList.update tag None tgs)
          else AList.update tag (Some 1) tgs)"

fun tags_loop ::
  "string list \<Rightarrow> store \<Rightarrow> (string \<times> nat option) list
     \<Rightarrow> error + (string \<times> nat option) list" where
  "tags_loop [] s tgs = Inr tgs"
| "tags_loop (k # ks) s tgs =
     (case map_of s k of
        None \<Rightarrow> Inl TypeError
      | Some it \<Rightarrow>
          (case tags it of
             TagsFalse \<Rightarrow> tags_loop ks s tgs
           | TagsArr a \<Rightarrow> tags_loop ks s (fold tags_bump a tgs)))"

definition tags_method ::
  "bool \<Rightarrow> int \<Rightarrow> store \<Rightarrow> (error + (string \<times> nat option) list) \<times> store" where
  "tags_method validOnly now s =
     (if validOnly then
        (case deleteExpired now s of
           (Inl e, s') \<Rightarrow> (Inl e, s')
         | (Inr n, s') \<Rightarrow> (tags_loop (object_keys s') s' [], s'))
      else (tags_loop (object_keys s) s [], s))"

text \<open>
  The match predicates in the words of the specification, to compare the loops with:
  all-match holds iff every tag of the query is on the item, any-match iff at least
  one tag of the query is on the item, and an item without tags matches neither.
\<close>

definition spec_tag_match :: "bool \<Rightarrow> string list \<Rightarrow> item \<Rightarrow> bool" where
  "spec_tag_match al tgs it =
     (case tags it of
        TagsFalse \<Rightarrow> False
      | TagsArr a \<Rightarrow> if al then set tgs \<subseteq> set a else set tgs \<inter> set a \<noteq> {})"

text \<open>The entry of the result of \<^verbatim>\<open>getTagged\<close> for an item.\<close>

definition tagged_entry :: "bool \<Rightarrow> item \<Rightarrow> tagged" where
  "tagged_entry mt it = (if mt then TMeta it else TPayload (payload it))"

section \<open>Serialization\<close>

text \<open>
  \<^verbatim>\<open>JSON.stringify\<close> and \<^verbatim>\<open>JSON.parse\<close> belong to the runtime. They are modelled
  after ECMAScript, with a JSON text given by the value it denotes: \<^verbatim>\<open>undefined\<close>
  has no JSON form (a property with such a value is left out, an array element
  becomes \<^verbatim>\<open>null\<close>), a BigInt makes \<^verbatim>\<open>JSON.stringify\<close> throw, and every other value
  of \<open>jsval\<close> is written as it is.
\<close>

datatype json =
    JsonNull
  | JsonBool bool
  | JsonNum int
  | JsonStr string
  | JsonArr "json list"
  | JsonObj "(string \<times> json) list"

fun to_json :: "jsval \<Rightarrow> error + json option"
  and to_json_elems :: "jsval list \<Rightarrow> error + json list"
  and to_json_props :: "(string \<times> jsval) list \<Rightarrow> error + (string \<times> json) list" where
  "to_json JUndefined = Inr None"
| "to_json JNull = Inr (Some JsonNull)"
| "to_json (JBool b) = Inr (Some (JsonBool b))"
| "to_json (JNum n) = Inr (Some (JsonNum n))"
| "to_json (JStr str) = Inr (Some (JsonStr str))"
| "to_json (JBigInt n) = Inl TypeError"
| "to_json (JArr vs) =
     (case to_json_elems vs of Inl e \<Rightarrow> Inl e | Inr js \<Rightarrow> Inr (Some (JsonArr js)))"
| "to_json (JObj ps) =
     (case to_json_props ps of Inl e \<Rightarrow> Inl e | Inr qs \<Rightarrow> Inr (Some (JsonObj qs)))"
| "to_json_elems [] = Inr []"
| "to_json_elems (v # vs) =
     (case to_json v of
        Inl e \<Rightarrow> Inl e
      | Inr j \<Rightarrow>
          (case to_json_elems vs of
             Inl e \<Rightarrow> Inl e
           | Inr js \<Rightarrow> Inr ((case j of None \<Rightarrow> JsonNull | Some x \<Rightarrow> x) # js)))"
| "to_json_props [] = Inr []"
| "to_json_props (kv # ps) =
     (case to_json (snd kv) of
        Inl e \<Rightarrow> Inl e
      | Inr j \<Rightarrow>
          (case to_json_props ps of
             Inl e \<Rightarrow> Inl e
           | Inr qs \<Rightarrow> Inr (case j of None \<Rightarrow> qs | Some x \<Rightarrow> (fst kv, x) # qs)))"

fun from_json :: "json \<Rightarrow> jsval"
  and from_json_elems :: "json list \<Rightarrow> jsval list"
  and from_json_props :: "(string \<times> json) list \<Rightarrow> (string \<times> jsval) list" where
  "from_json JsonNull = JNull"
| "from_json (JsonBool b) = JBool b"
| "from_json (JsonNum n) = JNum n"
| "from_json (JsonStr str) = JStr str"
| "from_json (JsonArr js) = JArr (from_json_elems js)"
| "from_json (JsonObj qs) = JObj (from_json_props qs)"
| "from_json_elems [] = []"
| "from_json_elems (j # js) = from_json j # from_json_elems js"
| "from_json_props [] = []"
| "from_json_props (kj # qs) = (fst kj, from_json (snd kj)) # from_json_props qs"

text \<open>
  A serializable payload: \<^verbatim>\<open>undefined\<close> itself (the item is then written without
  \<^verbatim>\<open>payload\<close> and read back without it), or a value that holds neither
  \<^verbatim>\<open>undefined\<close> nor a BigInt anywhere.
\<close>

fun plain_value :: "jsval \<Rightarrow> bool"
  and plain_values :: "jsval list \<Rightarrow> bool"
  and plain_props :: "(string \<times> jsval) list \<Rightarrow> bool" where
  "plain_value JUndefined = False"
| "plain_value JNull = True"
| "plain_value (JBool b) = True"
| "plain_value (JNum n) = True"
| "plain_value (JStr str) = True"
| "plain_value (JBigInt n) = False"
| "plain_value (JArr vs) = plain_values vs"
| "plain_value (JObj ps) = plain_props ps"
| "plain_values [] = True"
| "plain_values (v # vs) = (plain_value v \<and> plain_values vs)"
| "plain_props [] = True"
| "plain_props (kv # ps) = (plain_value (snd kv) \<and> plain_props ps)"

definition serializable :: "jsval \<Rightarrow> bool" where
  "serializable v = (v = JUndefined \<or> plain_value v)"

text \<open>
  The JSON form of an item, with its properties in the order in which \<^verbatim>\<open>set\<close>
  writes them, and of the store.
\<close>

definition item_json :: "item \<Rightarrow> error + json" where
  "item_json it =
     (case to_json (payload it) of
        Inl e \<Rightarrow> Inl e
      | Inr pj \<Rightarrow>
          Inr (JsonObj
            ([(''key'', JsonStr (key it))]
             @ (case pj of None \<Rightarrow> [] | Some j \<Rightarrow> [(''payload'', j)])
             @ [(''tags'',
                 (case tags it of
                    TagsFalse \<Rightarrow> JsonBool False
                  | TagsArr a \<Rightarrow> JsonArr (map JsonStr a)))]
             @ (case expires it of
                  ExpFalse \<Rightarrow> [(''expires'', JsonBool False)]
                | ExpUndefined \<Rightarrow> []
                | ExpNum t \<Rightarrow> [(''expires'', JsonNum t)])
             @ [(''created'', JsonNum (created it))])))"

fun store_json_props :: "store \<Rightarrow> error + (string \<times> json) list" where
  "store_json_props [] = Inr []"
| "store_json_props (kv # s) =
     (case item_json (snd kv) of
        Inl e \<Rightarrow> Inl e
      | Inr j \<Rightarrow>
          (case store_json_props s of
             Inl e \<Rightarrow> Inl e
           | Inr qs \<Rightarrow> Inr ((fst kv, j) # qs)))"

text \<open>
  A string is JSON text, given by the value it denotes, or it is not.
  \<^verbatim>\<open>JSON.stringify(toExport)\<close> for a store:
\<close>

datatype serialized = JsonText json | NotJson

definition stringify :: "store \<Rightarrow> error + serialized" where
  "stringify s =
     (case store_json_props s of
        Inl e \<Rightarrow> Inl e
      | Inr qs \<Rightarrow> Inr (JsonText (JsonObj qs)))"

text \<open>
  Reading a JSON value as an item and as a store. The result is \<open>None\<close> when the value
  has not the fields of the record \<open>item\<close>; \<^verbatim>\<open>import\<close> validates nothing and
  installs such a value all the same, as \<open>OtherValue\<close>.
\<close>

fun read_strings :: "json list \<Rightarrow> string list option" where
  "read_strings [] = Some []"
| "read_strings (j # js) =
     (case j of
        JsonStr str \<Rightarrow> (case read_strings js of None \<Rightarrow> None | Some a \<Rightarrow> Some (str # a))
      | _ \<Rightarrow> None)"

definition read_tags :: "json option \<Rightarrow> item_tags option" where
  "read_tags j =
     (case j of
        Some (JsonBool b) \<Rightarrow> if b then None else Some TagsFalse
      | Some (JsonArr js) \<Rightarrow> map_option TagsArr (read_strings js)
      | _ \<Rightarrow> None)"

definition read_expires :: "json option \<Rightarrow> expiry option" where
  "read_expires j =
     (case j of
        None \<Rightarrow> Some ExpUndefined
      | Some (JsonBool b) \<Rightarrow> if b then None else Some ExpFalse
      | Some (JsonNum t) \<Rightarrow> Some (ExpNum t)
      | _ \<Rightarrow> None)"

definition read_item :: "json \<Rightarrow> item option" where
  "read_item j =
     (case j of
        JsonObj fs \<Rightarrow>
          (case (map_of fs ''key'', read_tags (map_of fs ''tags''),
                 read_expires (map_of fs ''expires''), map_of fs ''created'') of
             (Some (JsonStr k), Some tg, Some e, Some (JsonNum c)) \<Rightarrow>
               Some \<lparr>key = k,
                     payload = (case map_of fs ''payload'' of
                                  None \<Rightarrow> JUndefined
                                | Some pj \<Rightarrow> from_json pj),
                     tags = tg, expires = e, created = c\<rparr>
           | _ \<Rightarrow> None)
      | _ \<Rightarrow> None)"

fun read_store :: "(string \<times> json) list \<Rightarrow> store option" where
  "read_store [] = Some []"
| "read_store (kj # qs) =
     (case read_item (snd kj) of
        None \<Rightarrow> None
      | Some it \<Rightarrow>
          (case read_store qs of
             None \<Rightarrow> None
           | Some s \<Rightarrow> Some ((fst kj, it) # s)))"

text \<open>\<^verbatim>\<open>JSON.parse(obj)\<close>: an object comes back as a plain object.\<close>

definition parse :: "serialized \<Rightarrow> error + dollar" where
  "parse txt =
     (case txt of
        NotJson \<Rightarrow> Inl SyntaxError
      | JsonText j \<Rightarrow>
          Inr (case j of
                 JsonNull \<Rightarrow> NullValue
               | JsonObj qs \<Rightarrow>
                   (case read_store qs of
                      None \<Rightarrow> OtherValue
                    | Some s \<Rightarrow> Items ObjectProto s)
               | _ \<Rightarrow> OtherValue))"

section \<open>Export and import\<close>

record export_opts =
  opt_persistent :: bool
  opt_expired :: bool
  opt_object :: bool

datatype exported = AsJson serialized | AsObject dollar

text \<open>
  The loop of the \<^verbatim>\<open>persistent\<close> branch, which picks the items without expire value
  into a plain object (\<^verbatim>\<open>toExport = {}\<close>), where the key \<^verbatim>\<open>__proto__\<close> stores nothing.
\<close>

fun export_persistent_loop :: "string list \<Rightarrow> store \<Rightarrow> store \<Rightarrow> error + store" where
  "export_persistent_loop [] s toExport = Inr toExport"
| "export_persistent_loop (k # ks) s toExport =
     (case map_of s k of
        None \<Rightarrow> Inl TypeError
      | Some it \<Rightarrow>
          if \<not> (case expires it of ExpNum t \<Rightarrow> t \<noteq> 0 | _ \<Rightarrow> False)
          then export_persistent_loop ks s
                 (if k = ''__proto__'' then toExport else AList.update k it toExport)
          else export_persistent_loop ks s toExport)"

definition export ::
  "export_opts \<Rightarrow> int \<Rightarrow> store \<Rightarrow> (error + exported) \<times> store" where
  "export opts now s =
     (case (if opt_persistent opts then (export_persistent_loop (object_keys s) s [], s)
            else if opt_expired opts then (Inr s, s)
            else (case deleteExpired now s of
                    (Inl e, s') \<Rightarrow> (Inl e, s')
                  | (Inr n, s') \<Rightarrow> (Inr s', s'))) of
        (Inl e, s') \<Rightarrow> (Inl e, s')
      | (Inr toExport, s') \<Rightarrow>
          (case stringify toExport of
             Inl e \<Rightarrow> (Inl e, s')
           | Inr txt \<Rightarrow>
               if opt_object opts then
                 (case parse txt of
                    Inl e \<Rightarrow> (Inl e, s')
                  | Inr obj \<Rightarrow> (Inr (AsObject obj), s'))
               else (Inr (AsJson txt), s')))"

text \<open>
  The argument of \<^verbatim>\<open>import\<close>: a string, a value whose \<^verbatim>\<open>typeof\<close> is
  \<^verbatim>\<open>'object'\<close> (an object or \<^verbatim>\<open>null\<close>), or a value of another type. \<^verbatim>\<open>import\<close>
  replaces the value of \<^verbatim>\<open>this.$\<close>.
\<close>

datatype import_arg = ImpString serialized | ImpObject dollar | ImpOther

definition import :: "import_arg \<Rightarrow> dollar \<Rightarrow> (error + bool) \<times> dollar" where
  "import obj d =
     (case obj of
        ImpString txt \<Rightarrow>
          (case parse txt of
             Inl e \<Rightarrow> (Inl e, d)
           | Inr v \<Rightarrow> (Inr True, v))
      | ImpObject v \<Rightarrow> (Inr True, v)
      | ImpOther \<Rightarrow> (Inl InvalidImportType, d))"

text \<open>
  Passing the result of \<^verbatim>\<open>export\<close> to \<^verbatim>\<open>import\<close>: serialized text has
  \<^verbatim>\<open>typeof\<close> string, the copy made with the \<^verbatim>\<open>object\<close> option has \<^verbatim>\<open>typeof\<close> object.
\<close>

definition as_import_arg :: "exported \<Rightarrow> import_arg" where
  "as_import_arg out = (case out of AsJson txt \<Rightarrow> ImpString txt | AsObject v \<Rightarrow> ImpObject v)"

section \<open>The state of the test suite\<close>

text \<open>
  The mocked clock and the first five items of the state that \<^verbatim>\<open>test.js\<close> imports,
  with each item's key written out, and two items without \<^verbatim>\<open>expires\<close> field.
\<close>

definition testTime :: int where
  "testTime = 1893456000"

definition test_state :: store where
  "test_state =
     [(''key1'', \<lparr>key = ''key1'', payload = JStr ''v1'', tags = TagsFalse,
                  expires = ExpFalse, created = testTime - 3600\<rparr>),
      (''key2'', \<lparr>key = ''key2'', payload = JStr ''v2'', tags = TagsArr [''foo'', ''bar''],
                  expires = ExpNum (testTime + 3600), created = testTime - 3600\<rparr>),
      (''key3'', \<lparr>key = ''key3'', payload = JStr ''v3'', tags = TagsArr [''bar''],
                  expires = ExpNum (testTime - 3600), created = testTime - 7200\<rparr>),
      (''key4'', \<lparr>key = ''key4'', payload = JStr ''v4'', tags = TagsArr [''foo'', ''bar''],
                  expires = ExpNum (testTime + 3600), created = testTime - 3600\<rparr>),
      (''key5'', \<lparr>key = ''key5'', payload = JStr ''v5'', tags = TagsArr [''moo''],
                  expires = ExpNum (testTime - 3600), created = testTime - 7200\<rparr>),
      (''key6'', \<lparr>key = ''key6'', payload = JStr ''v6'', tags = TagsArr [''on.boom''],
                  expires = ExpUndefined, created = testTime\<rparr>),
      (''key7'', \<lparr>key = ''key7'', payload = JStr ''v7'', tags = TagsArr [''on.boom''],
                  expires = ExpUndefined, created = testTime\<rparr>)]"

text \<open>
  The store after \<^verbatim>\<open>set('k', 'v', {expireIn: -100})\<close> at time 100 on an empty cache:
  the item's \<^verbatim>\<open>expires\<close> is the timestamp 0.
\<close>

definition epoch_store :: store where
  "epoch_store =
     [(''k'', \<lparr>key = ''k'', payload = JStr ''v'', tags = TagsFalse,
                expires = ExpNum 0, created = 100\<rparr>)]"

text \<open>
  The store after \<^verbatim>\<open>set('__proto__', 'v', {tags: 'foo'})\<close> at time 100 on an empty
  cache, whose \<^verbatim>\<open>this.$\<close> the constructor made without prototype.
\<close>

definition proto_key_store :: store where
  "proto_key_store =
     [(''__proto__'', \<lparr>key = ''__proto__'', payload = JStr ''v'', tags = TagsArr [''foo''],
                        expires = ExpFalse, created = 100\<rparr>)]"

text \<open>An item whose expiry time is the time of the call.\<close>

definition boundary_item :: item where
  "boundary_item =
     \<lparr>key = ''k'', payload = JStr ''v'', tags = TagsFalse,
      expires = ExpNum testTime, created = testTime - 60\<rparr>"

section \<open>Auxiliary lemmas on the store\<close>

lemma delete_absent: "k \<notin> fst ` set s \<Longrightarrow> AList.delete k s = s"
  by (induction s) (auto simp: AList.delete_eq)

text \<open>
  One round of a loop that deletes the keys whose item satisfies \<open>P\<close>: what the
  store and the counter are after the keys \<open>k # ks\<close>, from what they are after \<open>ks\<close>.
\<close>

lemma sweep_keep_step:
  assumes "distinct (map fst s)" "map_of s k = Some c" "P c"
  shows "filter (\<lambda>(k', it). \<not> (k' \<in> set ks \<and> P it)) (AList.delete k s) =
         filter (\<lambda>(k', it). \<not> (k' \<in> set (k # ks) \<and> P it)) s"
proof -
  have "\<And>k' it. (k', it) \<in> set s \<Longrightarrow> k' = k \<Longrightarrow> P it"
    using assms by auto
  then show ?thesis
    unfolding AList.delete_eq filter_filter
    by (intro filter_cong) auto
qed

lemma sweep_count_step:
  assumes "distinct (map fst s)" "map_of s k = Some c" "P c" "k \<notin> set ks"
  shows "Suc (length (filter (\<lambda>(k', it). k' \<in> set ks \<and> P it) (AList.delete k s))) =
         length (filter (\<lambda>(k', it). k' \<in> set (k # ks) \<and> P it) s)"
  using assms
proof (induction s)
  case Nil
  then show ?case by simp
next
  case (Cons e s)
  obtain a b where e: "e = (a, b)" by (cases e)
  show ?case
  proof (cases "a = k")
    case True
    with Cons.prems e have b: "b = c" and nk: "k \<notin> fst ` set s" by auto
    have "filter (\<lambda>(k', it). k' \<in> set (k # ks) \<and> P it) s =
          filter (\<lambda>(k', it). k' \<in> set ks \<and> P it) s"
      using nk by (intro filter_cong) force+
    then show ?thesis
      using Cons.prems e True b nk by (simp add: delete_absent)
  next
    case False
    with Cons e show ?thesis by (auto simp: AList.delete_eq)
  qed
qed

lemma sweep_skip_count:
  assumes "distinct (map fst s)" "map_of s k = Some c" "\<not> P c"
  shows "filter (\<lambda>(k', it). k' \<in> set (k # ks) \<and> P it) s =
         filter (\<lambda>(k', it). k' \<in> set ks \<and> P it) s"
proof -
  have "\<And>k' it. (k', it) \<in> set s \<Longrightarrow> k' = k \<Longrightarrow> \<not> P it"
    using assms by auto
  then show ?thesis by (intro filter_cong) auto
qed

lemma sweep_skip_keep:
  assumes "distinct (map fst s)" "map_of s k = Some c" "\<not> P c"
  shows "filter (\<lambda>(k', it). \<not> (k' \<in> set (k # ks) \<and> P it)) s =
         filter (\<lambda>(k', it). \<not> (k' \<in> set ks \<and> P it)) s"
proof -
  have "\<And>k' it. (k', it) \<in> set s \<Longrightarrow> k' = k \<Longrightarrow> \<not> P it"
    using assms by auto
  then show ?thesis by (intro filter_cong) auto
qed

lemma filter_all_keys:
  "filter (\<lambda>(k, it). k \<in> set (map fst s) \<and> P it) s = filter (\<lambda>(k, it). P it) s"
  by (intro filter_cong) force+

lemma filter_not_all_keys:
  "filter (\<lambda>(k, it). \<not> (k \<in> set (map fst s) \<and> P it)) s = filter (\<lambda>(k, it). \<not> P it) s"
  by (intro filter_cong) force+

lemma map_of_filter_items:
  "distinct (map fst s) \<Longrightarrow>
   map_of (filter (\<lambda>(k, it). Q it) s) k =
     (case map_of s k of None \<Rightarrow> None | Some it \<Rightarrow> if Q it then Some it else None)"
proof (induction s)
  case Nil
  then show ?case by simp
next
  case (Cons e s)
  obtain a b where e: "e = (a, b)" by (cases e)
  have "a \<notin> fst ` set s" using Cons.prems e by simp
  then have "map_of (filter (\<lambda>(k, it). Q it) s) a = None"
    by (force simp: map_of_eq_None_iff)
  then show ?case using Cons e by (auto split: option.splits)
qed

lemma length_filter_items_card:
  assumes "distinct (map fst s)"
  shows "length (filter (\<lambda>(k, it). Q it) s) = card {k. \<exists>it. map_of s k = Some it \<and> Q it}"
proof -
  let ?f = "filter (\<lambda>(k, it). Q it) s"
  have d: "distinct (map fst ?f)" using assms by (simp add: distinct_map_filter)
  have "{k. \<exists>it. map_of s k = Some it \<and> Q it} = set (map fst ?f)"
    using assms by (auto simp: image_iff)
  then show ?thesis using distinct_card[OF d] by simp
qed

section \<open>The sweep\<close>

lemma is_expired_iff:
  "is_expired now it \<longleftrightarrow> (\<exists>t. expires it = ExpNum t \<and> t \<noteq> 0 \<and> t < now)"
  by (auto simp: is_expired_def split: expiry.splits)

lemma deleteExpired_loop_char:
  "distinct (map fst s) \<Longrightarrow> distinct ks \<Longrightarrow> set ks \<subseteq> fst ` set s \<Longrightarrow>
   deleteExpired_loop now ks s n =
     (Inr (n + length (filter (\<lambda>(k, it). k \<in> set ks \<and> is_expired now it) s)),
      filter (\<lambda>(k, it). \<not> (k \<in> set ks \<and> is_expired now it)) s)"
proof (induction ks arbitrary: s n)
  case Nil
  then show ?case by simp
next
  case (Cons k ks)
  from Cons.prems obtain c where c: "map_of s k = Some c"
    by (cases "map_of s k") (auto simp: map_of_eq_None_iff)
  show ?case
  proof (cases "is_expired now c")
    case True
    have d: "distinct (map fst (AList.delete k s))"
      using Cons.prems(1) by (simp add: distinct_delete)
    have sub: "set ks \<subseteq> fst ` set (AList.delete k s)"
      using Cons.prems(2,3) by (auto simp: AList.delete_eq) force
    have nk: "k \<notin> set ks" using Cons.prems(2) by simp
    show ?thesis
      using Cons.IH[OF d _ sub, of "n + 1"] Cons.prems(2) c True
        sweep_keep_step[OF Cons.prems(1) c, of "is_expired now" ks]
        sweep_count_step[OF Cons.prems(1) c, of "is_expired now" ks, OF True nk]
      by simp
  next
    case False
    show ?thesis
      using Cons.IH[OF Cons.prems(1), of n] Cons.prems(2,3) c False
        sweep_skip_count[OF Cons.prems(1) c, of "is_expired now" ks]
        sweep_skip_keep[OF Cons.prems(1) c, of "is_expired now" ks]
      by simp
  qed
qed

lemma deleteExpired_char:
  assumes "wf_store s"
  shows "deleteExpired now s =
     (Inr (length (filter (\<lambda>(k, it). is_expired now it) s)),
      filter (\<lambda>(k, it). \<not> is_expired now it) s)"
proof -
  have d: "distinct (map fst s)" using assms by (simp add: wf_store_def)
  show ?thesis
    unfolding deleteExpired_def object_keys_def
    using deleteExpired_loop_char[OF d d, of now 0]
      filter_all_keys[of s "is_expired now"] filter_not_all_keys[of s "is_expired now"]
    by simp
qed

text \<open>
  Claim C2, as the code has it. For every store, \<^verbatim>\<open>deleteExpired\<close> returns; it
  removes exactly the items whose \<^verbatim>\<open>expires\<close> is a number other than 0 and
  strictly less than the current time, and leaves every other item as it was (the ones
  that never expire, the ones without \<^verbatim>\<open>expires\<close>, and the ones whose time is 0 or
  not yet past); it returns the number of items removed; and a second call at the same
  time removes nothing and returns 0.
\<close>

theorem deleteExpired_removes_nonzero_past:
  assumes "wf_store s"
  shows "\<exists>n s'. deleteExpired now s = (Inr n, s')
     \<and> (\<forall>k it. map_of s k = Some it \<longrightarrow>
           map_of s' k =
             (if (\<exists>t. expires it = ExpNum t \<and> t \<noteq> 0 \<and> t < now) then None else Some it))
     \<and> (\<forall>k. map_of s k = None \<longrightarrow> map_of s' k = None)
     \<and> n = card {k. \<exists>it t. map_of s k = Some it \<and> expires it = ExpNum t \<and> t \<noteq> 0 \<and> t < now}
     \<and> wf_store s'
     \<and> deleteExpired now s' = (Inr 0, s')"
proof -
  let ?s' = "filter (\<lambda>(k, it). \<not> is_expired now it) s"
  let ?n = "length (filter (\<lambda>(k, it). is_expired now it) s)"
  have d: "distinct (map fst s)" using assms by (simp add: wf_store_def)
  have wf': "wf_store ?s'" using d by (simp add: wf_store_def distinct_map_filter)
  have 1: "deleteExpired now s = (Inr ?n, ?s')" by (rule deleteExpired_char[OF assms])
  have 2: "\<forall>k it. map_of s k = Some it \<longrightarrow>
           map_of ?s' k =
             (if (\<exists>t. expires it = ExpNum t \<and> t \<noteq> 0 \<and> t < now) then None else Some it)"
    by (auto simp: map_of_filter_items[OF d] is_expired_iff[symmetric])
  have 3: "\<forall>k. map_of s k = None \<longrightarrow> map_of ?s' k = None"
    by (simp add: map_of_filter_items[OF d])
  have 4: "?n = card {k. \<exists>it t. map_of s k = Some it \<and> expires it = ExpNum t \<and> t \<noteq> 0 \<and> t < now}"
    by (simp add: length_filter_items_card[OF d] is_expired_iff)
  have "filter (\<lambda>(k, it). is_expired now it) ?s' = []"
    by (auto simp: filter_empty_conv)
  moreover have "filter (\<lambda>(k, it). \<not> is_expired now it) ?s' = ?s'"
    by (auto simp: filter_id_conv)
  ultimately have 5: "deleteExpired now ?s' = (Inr 0, ?s')"
    using deleteExpired_char[OF wf', of now] by simp
  show ?thesis using 1 2 3 4 wf' 5 by blast
qed

theorem deleteExpired_removes_nonzero_past_witness:
  "wf_store test_state \<and>
   (\<exists>n s'. deleteExpired testTime test_state = (Inr n, s') \<and> wf_store s' \<and>
      deleteExpired testTime s' = (Inr 0, s'))"
proof -
  have wf: "wf_store test_state" by (simp add: wf_store_def test_state_def)
  show ?thesis
    using wf deleteExpired_removes_nonzero_past[OF wf, of testTime] by blast
qed

text \<open>
  Claim C2 as stated fails on an item whose \<^verbatim>\<open>expires\<close> is the timestamp 0, as
  \<^verbatim>\<open>set\<close> stores it for \<^verbatim>\<open>expireIn = -now\<close>: at time 200 it is an explicit
  timestamp strictly less than the current time, and the sweep keeps it and returns 0,
  since \<^verbatim>\<open>cached.expires && ...\<close> takes 0 for false.
\<close>

theorem deleteExpired_timestamp_zero_counterexample:
  "set_item ''k'' (JStr ''v'') \<lparr>expireIn = Some (- 100), expireAt = None, opt_tags = PUndefined\<rparr>
      100 [] = (Inr True, epoch_store)
   \<and> deleteExpired 200 epoch_store = (Inr 0, epoch_store)
   \<and> map_of epoch_store ''k'' =
       Some \<lparr>key = ''k'', payload = JStr ''v'', tags = TagsFalse,
             expires = ExpNum 0, created = 100\<rparr>"
  by (simp add: set_item_def param_truthy_def truthy_def epoch_store_def
      deleteExpired_def object_keys_def is_expired_def)

section \<open>The boundary instant\<close>

text \<open>
  Claim C10. When an item's \<^verbatim>\<open>expires\<close> equals the current time, \<^verbatim>\<open>get\<close> without
  \<^verbatim>\<open>force\<close> and \<^verbatim>\<open>maxAge\<close> misses and returns the default or null, while
  \<^verbatim>\<open>deleteExpired\<close> at the same instant keeps the item and does not count it: its
  count is the number of the other keys whose time is past, and is 0 when the item is
  alone in the store.
\<close>

theorem boundary_get_misses_sweep_keeps:
  assumes "wf_store s" and "map_of s k = Some it" and "expires it = ExpNum now"
    and "\<not> force opts" and "\<not> truthy (maxAge opts)"
  shows "get k opts now s = (defaultOrNull opts, s)
     \<and> (\<exists>n s'. deleteExpired now s = (Inr n, s') \<and> map_of s' k = Some it
          \<and> n = card {k'. k' \<noteq> k \<and>
                (\<exists>it' t. map_of s k' = Some it' \<and> expires it' = ExpNum t \<and> t \<noteq> 0 \<and> t < now)})
     \<and> deleteExpired now [(k, it)] = (Inr 0, [(k, it)])"
proof -
  have d: "distinct (map fst s)" using assms(1) by (simp add: wf_store_def)
  have ne: "\<not> is_expired now it" using assms(3) by (simp add: is_expired_def)
  have g: "get k opts now s = (defaultOrNull opts, s)"
    using assms by (simp add: get_def)
  have m: "map_of (filter (\<lambda>(k, it). \<not> is_expired now it) s) k = Some it"
    using assms(2) ne by (simp add: map_of_filter_items[OF d])
  have "{k'. \<exists>it'. map_of s k' = Some it' \<and> is_expired now it'} =
        {k'. k' \<noteq> k \<and>
           (\<exists>it' t. map_of s k' = Some it' \<and> expires it' = ExpNum t \<and> t \<noteq> 0 \<and> t < now)}"
    using assms(2) ne by (auto simp: is_expired_iff)
  then have c: "length (filter (\<lambda>(k, it). is_expired now it) s) =
        card {k'. k' \<noteq> k \<and>
           (\<exists>it' t. map_of s k' = Some it' \<and> expires it' = ExpNum t \<and> t \<noteq> 0 \<and> t < now)}"
    by (simp add: length_filter_items_card[OF d])
  have one: "deleteExpired now [(k, it)] = (Inr 0, [(k, it)])"
    using ne by (simp add: deleteExpired_def object_keys_def)
  show ?thesis
    using g m c one deleteExpired_char[OF assms(1), of now] by simp
qed

theorem boundary_get_misses_sweep_keeps_witness:
  "wf_store [(''k'', boundary_item)] \<and>
   get ''k'' \<lparr>dflt = JUndefined, maxAge = None, force = False\<rparr> testTime [(''k'', boundary_item)] =
     (JNull, [(''k'', boundary_item)]) \<and>
   deleteExpired testTime [(''k'', boundary_item)] = (Inr 0, [(''k'', boundary_item)])"
proof -
  have wf: "wf_store [(''k'', boundary_item)]" by (simp add: wf_store_def)
  have e: "expires boundary_item = ExpNum testTime" by (simp add: boundary_item_def)
  show ?thesis
    using wf boundary_get_misses_sweep_keeps[OF wf _ e,
        of "''k''" "\<lparr>dflt = JUndefined, maxAge = None, force = False\<rparr>"]
    by (simp add: truthy_def defaultOrNull_def)
qed

section \<open>Reading with a maximal age\<close>

text \<open>
  Claim C1, as the code has it. For a stored key, a \<^verbatim>\<open>get\<close> that is not forced and
  whose \<^verbatim>\<open>maxAge\<close> is a number other than 0 returns the payload if
  \<^verbatim>\<open>maxAge > now - created\<close> and the default or null otherwise, and leaves the store
  as it was; the answer is the same whatever the item's \<^verbatim>\<open>expires\<close> is.
\<close>

theorem get_maxAge_overrides_expires:
  assumes "map_of s k = Some it" and "\<not> force opts" and "maxAge opts = Some m" and "m \<noteq> 0"
  shows "get k opts now s =
           ((if m > now - created it then payload it else defaultOrNull opts), s)
     \<and> (\<forall>e. fst (get k opts now (AList.update k (it\<lparr>expires := e\<rparr>) s)) =
              fst (get k opts now s))"
  using assms by (simp add: get_def truthy_def update_conv')

theorem get_maxAge_overrides_expires_witness:
  "get ''key2'' \<lparr>dflt = JUndefined, maxAge = Some 1800, force = False\<rparr> testTime test_state =
     (JNull, test_state) \<and>
   get ''key3'' \<lparr>dflt = JUndefined, maxAge = Some 7201, force = False\<rparr> testTime test_state =
     (JStr ''v3'', test_state)"
proof -
  have 2: "map_of test_state ''key2'' = Some \<lparr>key = ''key2'', payload = JStr ''v2'', tags = TagsArr [''foo'', ''bar''],
                  expires = ExpNum (testTime + 3600), created = testTime - 3600\<rparr>"
    by (simp add: test_state_def)
  have 3: "map_of test_state ''key3'' = Some \<lparr>key = ''key3'', payload = JStr ''v3'', tags = TagsArr [''bar''],
                  expires = ExpNum (testTime - 3600), created = testTime - 7200\<rparr>"
    by (simp add: test_state_def)
  show ?thesis
    using get_maxAge_overrides_expires[OF 2, of "\<lparr>dflt = JUndefined, maxAge = Some 1800, force = False\<rparr>" 1800 testTime]
      get_maxAge_overrides_expires[OF 3, of "\<lparr>dflt = JUndefined, maxAge = Some 7201, force = False\<rparr>" 7201 testTime]
    by (simp add: defaultOrNull_def)
qed

text \<open>
  Claim C1 as stated fails when \<^verbatim>\<open>maxAge\<close> is 0: the test \<^verbatim>\<open>if(opts.maxAge)\<close> takes
  it for absent, and the item that never expires is returned although \<^verbatim>\<open>0 > 100 - 90\<close>
  is false. It also fails under \<^verbatim>\<open>force\<close>, which returns the payload before
  \<^verbatim>\<open>maxAge\<close> is looked at.
\<close>

theorem get_maxAge_zero_counterexample:
  "get ''k'' \<lparr>dflt = JUndefined, maxAge = Some 0, force = False\<rparr> 100
     [(''k'', \<lparr>key = ''k'', payload = JStr ''v'', tags = TagsFalse, expires = ExpFalse, created = 90\<rparr>)] =
   (JStr ''v'',
     [(''k'', \<lparr>key = ''k'', payload = JStr ''v'', tags = TagsFalse, expires = ExpFalse, created = 90\<rparr>)])
   \<and> \<not> (0::int) > 100 - 90
   \<and> get ''k'' \<lparr>dflt = JUndefined, maxAge = Some 5, force = True\<rparr> 100
     [(''k'', \<lparr>key = ''k'', payload = JStr ''v'', tags = TagsFalse, expires = ExpNum 95, created = 90\<rparr>)] =
   (JStr ''v'',
     [(''k'', \<lparr>key = ''k'', payload = JStr ''v'', tags = TagsFalse, expires = ExpNum 95, created = 90\<rparr>)])
   \<and> \<not> (5::int) > 100 - 90"
  by (simp add: get_def truthy_def)

section \<open>Setting an item\<close>








section \<open>Tags\<close>

lemma itemHasAllTags_tagged:
  "tags it = TagsArr a \<Longrightarrow> itemHasAllTags it ts = Inr (set ts \<subseteq> set a)"
  by (induction ts) auto

lemma itemHasAnyTag_tagged:
  "tags it = TagsArr a \<Longrightarrow> itemHasAnyTag it ts = Inr (set ts \<inter> set a \<noteq> {})"
  by (induction ts) auto

lemma tag_test_tagged:
  "tags it \<noteq> TagsFalse \<Longrightarrow>
   (if al then itemHasAllTags it ts else itemHasAnyTag it ts) = Inr (spec_tag_match al ts it)"
  by (cases "tags it") (simp_all add: spec_tag_match_def itemHasAllTags_tagged itemHasAnyTag_tagged)

lemma tag_match_untagged: "tags it = TagsFalse \<Longrightarrow> \<not> spec_tag_match al ts it"
  by (simp add: spec_tag_match_def)

lemma deleteItemsTagged_loop_char:
  "distinct (map fst s) \<Longrightarrow> distinct ks \<Longrightarrow> set ks \<subseteq> fst ` set s \<Longrightarrow>
   deleteItemsTagged_loop al ts ks s n =
     (Inr (n + length (filter (\<lambda>(k, it). k \<in> set ks \<and> spec_tag_match al ts it) s)),
      filter (\<lambda>(k, it). \<not> (k \<in> set ks \<and> spec_tag_match al ts it)) s)"
proof (induction ks arbitrary: s n)
  case Nil
  then show ?case by simp
next
  case (Cons k ks)
  from Cons.prems obtain c where c: "map_of s k = Some c"
    by (cases "map_of s k") (auto simp: map_of_eq_None_iff)
  show ?case
  proof (cases "spec_tag_match al ts c")
    case True
    then have tg: "tags c \<noteq> TagsFalse" using tag_match_untagged by blast
    have d: "distinct (map fst (AList.delete k s))"
      using Cons.prems(1) by (simp add: distinct_delete)
    have sub: "set ks \<subseteq> fst ` set (AList.delete k s)"
      using Cons.prems(2,3) by (auto simp: AList.delete_eq) force
    have nk: "k \<notin> set ks" using Cons.prems(2) by simp
    have step: "deleteItemsTagged_loop al ts (k # ks) s n =
                deleteItemsTagged_loop al ts ks (AList.delete k s) (n + 1)"
      using c tg True tag_test_tagged[OF tg, of al ts] by (cases al) simp_all
    show ?thesis
      unfolding step
      using True Cons.IH[OF d _ sub, of "n + 1"] Cons.prems(2)
        sweep_keep_step[OF Cons.prems(1) c, of "spec_tag_match al ts" ks]
        sweep_count_step[OF Cons.prems(1) c, of "spec_tag_match al ts" ks, OF True nk]
      by simp
  next
    case False
    have step: "deleteItemsTagged_loop al ts (k # ks) s n =
                deleteItemsTagged_loop al ts ks s n"
    proof (cases "tags c = TagsFalse")
      case True
      then show ?thesis using c by simp
    next
      case tg: False
      show ?thesis
        using c tg False tag_test_tagged[OF tg, of al ts] by (cases al) simp_all
    qed
    show ?thesis
      unfolding step
      using Cons.IH[OF Cons.prems(1), of n] Cons.prems(2,3)
        sweep_skip_count[OF Cons.prems(1) c, of "spec_tag_match al ts" ks]
        sweep_skip_keep[OF Cons.prems(1) c, of "spec_tag_match al ts" ks]
      using False by simp
  qed
qed

lemma deleteItemsTagged_char:
  assumes "wf_store s" and "paramArray q = Inr ts"
  shows "deleteItemsTagged q al s =
     (Inr (ts, length (filter (\<lambda>(k, it). spec_tag_match al ts it) s)),
      filter (\<lambda>(k, it). \<not> spec_tag_match al ts it) s)"
proof -
  have d: "distinct (map fst s)" using assms(1) by (simp add: wf_store_def)
  show ?thesis
    unfolding deleteItemsTagged_def object_keys_def
    using assms(2) deleteItemsTagged_loop_char[OF d d, of al ts 0]
      filter_all_keys[of s "spec_tag_match al ts"] filter_not_all_keys[of s "spec_tag_match al ts"]
    by simp
qed

lemma deleteTagged_char:
  assumes "wf_store s" and "paramArray q = Inr ts"
  shows "deleteTagged q opts s =
     (Inr (length (filter (\<lambda>(k, it). spec_tag_match (opt_all opts) ts it) s)),
      filter (\<lambda>(k, it). \<not> spec_tag_match (opt_all opts) ts it) s)"
    and "trigger q opts s = deleteTagged q opts s"
  by (simp_all add: deleteTagged_def trigger_def deleteItemsTagged_char[OF assms])

text \<open>
  Claim C6. For a valid query, \<^verbatim>\<open>deleteTagged\<close> with \<^verbatim>\<open>all: true\<close> removes an item
  that has a tag array iff every tag of the query is in that array; an item that lacks
  a tag of the query stays as it was. The number returned is the number of keys that
  were in the store and are not any more.
\<close>

theorem deleteTagged_all_superset:
  assumes "wf_store s" and "paramArray q = Inr ts" and "opt_all opts"
  shows "\<exists>n s'. deleteTagged q opts s = (Inr n, s')
     \<and> (\<forall>k it a. map_of s k = Some it \<and> tags it = TagsArr a \<longrightarrow>
           (map_of s' k = None \<longleftrightarrow> set ts \<subseteq> set a) \<and>
           (\<not> set ts \<subseteq> set a \<longrightarrow> map_of s' k = Some it))
     \<and> (\<forall>k. map_of s k = None \<longrightarrow> map_of s' k = None)
     \<and> n = card {k. map_of s k \<noteq> None \<and> map_of s' k = None}"
proof -
  let ?P = "spec_tag_match True ts"
  let ?s' = "filter (\<lambda>(k, it). \<not> ?P it) s"
  let ?n = "length (filter (\<lambda>(k, it). ?P it) s)"
  have d: "distinct (map fst s)" using assms(1) by (simp add: wf_store_def)
  have dt: "deleteTagged q opts s = (Inr ?n, ?s')"
    using deleteTagged_char(1)[OF assms(1,2), of opts] assms(3) by simp
  have ms': "\<And>k. map_of ?s' k =
      (case map_of s k of None \<Rightarrow> None | Some it \<Rightarrow> if \<not> ?P it then Some it else None)"
    by (rule map_of_filter_items[OF d])
  have 1: "\<forall>k it a. map_of s k = Some it \<and> tags it = TagsArr a \<longrightarrow>
           (map_of ?s' k = None \<longleftrightarrow> set ts \<subseteq> set a) \<and>
           (\<not> set ts \<subseteq> set a \<longrightarrow> map_of ?s' k = Some it)"
    using ms' by (simp add: spec_tag_match_def)
  have 2: "\<forall>k. map_of s k = None \<longrightarrow> map_of ?s' k = None"
    using ms' by simp
  have "{k. \<exists>it. map_of s k = Some it \<and> ?P it} = {k. map_of s k \<noteq> None \<and> map_of ?s' k = None}"
    using ms' by (auto split: if_splits)
  then have 3: "?n = card {k. map_of s k \<noteq> None \<and> map_of ?s' k = None}"
    using length_filter_items_card[OF d, of ?P] by simp
  show ?thesis using dt 1 2 3 by blast
qed

theorem deleteTagged_all_superset_witness:
  "wf_store test_state \<and> paramArray (PStr ''foo bar'') = Inr [''foo'', ''bar''] \<and>
   (\<exists>n s'. deleteTagged (PStr ''foo bar'') \<lparr>opt_all = True, opt_meta = False\<rparr> test_state = (Inr n, s')
      \<and> map_of s' ''key2'' = None \<and> map_of s' ''key3'' = map_of test_state ''key3'')"
proof -
  let ?o = "\<lparr>opt_all = True, opt_meta = False\<rparr>"
  let ?i2 = "\<lparr>key = ''key2'', payload = JStr ''v2'', tags = TagsArr [''foo'', ''bar''],
                  expires = ExpNum (testTime + 3600), created = testTime - 3600\<rparr>"
  let ?i3 = "\<lparr>key = ''key3'', payload = JStr ''v3'', tags = TagsArr [''bar''],
                  expires = ExpNum (testTime - 3600), created = testTime - 7200\<rparr>"
  have wf: "wf_store test_state" by (simp add: wf_store_def test_state_def)
  have pa: "paramArray (PStr ''foo bar'') = Inr [''foo'', ''bar'']"
    by (simp add: paramArray_def trim_def is_space_def)
  have al: "opt_all ?o" by simp
  have k2: "map_of test_state ''key2'' = Some ?i2" by (simp add: test_state_def)
  have k3: "map_of test_state ''key3'' = Some ?i3" by (simp add: test_state_def)
  from deleteTagged_all_superset[OF wf pa al]
  obtain n s' where dt: "deleteTagged (PStr ''foo bar'') ?o test_state = (Inr n, s')"
    and c: "\<forall>k it a. map_of test_state k = Some it \<and> tags it = TagsArr a \<longrightarrow>
           (map_of s' k = None \<longleftrightarrow> set [''foo'', ''bar''] \<subseteq> set a) \<and>
           (\<not> set [''foo'', ''bar''] \<subseteq> set a \<longrightarrow> map_of s' k = Some it)"
    by blast
  have a: "map_of s' ''key2'' = None"
    using c[rule_format, of "''key2''" ?i2 "[''foo'', ''bar'']"] k2 by simp
  have b: "map_of s' ''key3'' = map_of test_state ''key3''"
    using c[rule_format, of "''key3''" ?i3 "[''bar'']"] k3 by simp
  show ?thesis using wf pa dt a b by blast
qed


section \<open>Reading by tag\<close>

lemma getTagged_loop_char:
  "set ks \<subseteq> fst ` set s \<Longrightarrow>
   \<exists>res. getTagged_loop al mt ts ks s items = Inr res \<and>
     (\<forall>k. map_of res k =
        (if k \<in> set ks \<and> k \<noteq> ''__proto__'' \<and>
            (\<exists>it. map_of s k = Some it \<and> spec_tag_match al ts it)
         then map_option (tagged_entry mt) (map_of s k)
         else map_of items k))"
proof (induction ks arbitrary: items)
  case Nil
  then show ?case by simp
next
  case (Cons k ks)
  from Cons.prems obtain c where c: "map_of s k = Some c"
    by (cases "map_of s k") (auto simp: map_of_eq_None_iff)
  have sub: "set ks \<subseteq> fst ` set s" using Cons.prems by simp
  show ?case
  proof (cases "spec_tag_match al ts c")
    case True
    then have tg: "tags c \<noteq> TagsFalse" using tag_match_untagged by blast
    let ?items = "if k = ''__proto__'' then items else AList.update k (tagged_entry mt c) items"
    have step: "getTagged_loop al mt ts (k # ks) s items = getTagged_loop al mt ts ks s ?items"
      using c tg True tag_test_tagged[OF tg, of al ts]
      by (cases al) (simp_all add: tagged_entry_def)
    from Cons.IH[OF sub, of ?items]
    show ?thesis
      unfolding step using c True by (auto simp: update_conv')
  next
    case False
    have step: "getTagged_loop al mt ts (k # ks) s items = getTagged_loop al mt ts ks s items"
    proof (cases "tags c = TagsFalse")
      case True
      then show ?thesis using c by simp
    next
      case tg: False
      show ?thesis
        using c tg False tag_test_tagged[OF tg, of al ts] by (cases al) simp_all
    qed
    from Cons.IH[OF sub, of items]
    show ?thesis
      unfolding step using c False by auto
  qed
qed

lemma getTagged_char:
  assumes "paramArray q = Inr ts"
  shows "\<exists>res. getTagged q opts s = (Inr res, s) \<and>
     (\<forall>k. map_of res k =
        (case map_of s k of
           None \<Rightarrow> None
         | Some it \<Rightarrow>
             if spec_tag_match (opt_all opts) ts it \<and> k \<noteq> ''__proto__''
             then Some (tagged_entry (opt_meta opts) it)
             else None))"
proof -
  have sub: "set (map fst s) \<subseteq> fst ` set s" by simp
  from getTagged_loop_char[OF sub, of "opt_all opts" "opt_meta opts" ts "[]"]
  obtain res where r: "getTagged_loop (opt_all opts) (opt_meta opts) ts (map fst s) s [] = Inr res"
    and m: "\<forall>k. map_of res k =
        (if k \<in> set (map fst s) \<and> k \<noteq> ''__proto__'' \<and>
            (\<exists>it. map_of s k = Some it \<and> spec_tag_match (opt_all opts) ts it)
         then map_option (tagged_entry (opt_meta opts)) (map_of s k)
         else map_of [] k)"
    by blast
  have "getTagged q opts s = (Inr res, s)"
    using assms r by (simp add: getTagged_def object_keys_def)
  moreover have "\<forall>k. map_of res k =
        (case map_of s k of
           None \<Rightarrow> None
         | Some it \<Rightarrow>
             if spec_tag_match (opt_all opts) ts it \<and> k \<noteq> ''__proto__''
             then Some (tagged_entry (opt_meta opts) it)
             else None)"
  proof
    fix k
    show "map_of res k =
        (case map_of s k of
           None \<Rightarrow> None
         | Some it \<Rightarrow>
             if spec_tag_match (opt_all opts) ts it \<and> k \<noteq> ''__proto__''
             then Some (tagged_entry (opt_meta opts) it)
             else None)"
    proof -
      have "k \<in> set (map fst s) \<longleftrightarrow> map_of s k \<noteq> None"
        by (simp add: map_of_eq_None_iff)
      then show ?thesis
        using m[rule_format, of k] by (cases "map_of s k") auto
    qed
  qed
  ultimately show ?thesis by blast
qed

text \<open>
  What the three tag operations do for a valid query on any store. An item stored with
  \<^verbatim>\<open>tags: false\<close> matches neither predicate: \<^verbatim>\<open>getTagged\<close> does not return it, and
  \<^verbatim>\<open>deleteTagged\<close> and \<^verbatim>\<open>trigger\<close> leave it in the store. The operations decide by
  the tags alone: every item that matches is removed and counted by \<^verbatim>\<open>deleteTagged\<close>
  and \<^verbatim>\<open>trigger\<close>, whatever its \<^verbatim>\<open>expires\<close> is, and is returned by \<^verbatim>\<open>getTagged\<close>
  unless its key is \<^verbatim>\<open>__proto__\<close>.
\<close>

lemma tag_operations_by_tags_alone:
  assumes "wf_store s" and "paramArray q = Inr ts"
  shows "\<exists>res n s'.
      getTagged q opts s = (Inr res, s)
    \<and> deleteTagged q opts s = (Inr n, s')
    \<and> trigger q opts s = (Inr n, s')
    \<and> n = card {k. \<exists>it. map_of s k = Some it \<and> spec_tag_match (opt_all opts) ts it}
    \<and> (\<forall>k it. map_of s k = Some it \<and> tags it = TagsFalse \<longrightarrow>
          map_of res k = None \<and> map_of s' k = Some it)
    \<and> (\<forall>k it. map_of s k = Some it \<and> spec_tag_match (opt_all opts) ts it \<longrightarrow>
          map_of res k =
            (if k = ''__proto__'' then None else Some (tagged_entry (opt_meta opts) it))
          \<and> map_of s' k = None)
    \<and> (\<forall>k it. map_of s k = Some it \<and> \<not> spec_tag_match (opt_all opts) ts it \<longrightarrow>
          map_of res k = None \<and> map_of s' k = Some it)
    \<and> (\<forall>it al. tags it = TagsFalse \<longrightarrow> \<not> spec_tag_match al ts it)
    \<and> (\<forall>it al e. spec_tag_match al ts (it\<lparr>expires := e\<rparr>) = spec_tag_match al ts it)"
proof -
  let ?P = "spec_tag_match (opt_all opts) ts"
  let ?s' = "filter (\<lambda>(k, it). \<not> ?P it) s"
  let ?n = "length (filter (\<lambda>(k, it). ?P it) s)"
  have d: "distinct (map fst s)" using assms(1) by (simp add: wf_store_def)
  from getTagged_char[OF assms(2), of opts s]
  obtain res where g: "getTagged q opts s = (Inr res, s)"
    and m: "\<forall>k. map_of res k =
        (case map_of s k of
           None \<Rightarrow> None
         | Some it \<Rightarrow>
             if ?P it \<and> k \<noteq> ''__proto__'' then Some (tagged_entry (opt_meta opts) it)
             else None)"
    by blast
  have dt: "deleteTagged q opts s = (Inr ?n, ?s')"
    by (rule deleteTagged_char(1)[OF assms])
  have tr: "trigger q opts s = (Inr ?n, ?s')"
    using deleteTagged_char(2)[OF assms, of opts] dt by simp
  have n: "?n = card {k. \<exists>it. map_of s k = Some it \<and> ?P it}"
    by (rule length_filter_items_card[OF d])
  have ms': "\<And>k. map_of ?s' k =
      (case map_of s k of None \<Rightarrow> None | Some it \<Rightarrow> if \<not> ?P it then Some it else None)"
    by (rule map_of_filter_items[OF d])
  have u: "\<forall>k it. map_of s k = Some it \<and> tags it = TagsFalse \<longrightarrow>
          map_of res k = None \<and> map_of ?s' k = Some it"
    using m ms' by (simp add: tag_match_untagged)
  have y: "\<forall>k it. map_of s k = Some it \<and> ?P it \<longrightarrow>
          map_of res k =
            (if k = ''__proto__'' then None else Some (tagged_entry (opt_meta opts) it))
          \<and> map_of ?s' k = None"
    using m ms' by simp
  have no: "\<forall>k it. map_of s k = Some it \<and> \<not> ?P it \<longrightarrow>
          map_of res k = None \<and> map_of ?s' k = Some it"
    using m ms' by simp
  have ut: "\<forall>it al. tags it = TagsFalse \<longrightarrow> \<not> spec_tag_match al ts it"
    by (simp add: spec_tag_match_def)
  have ex: "\<forall>it al e. spec_tag_match al ts (it\<lparr>expires := e\<rparr>) = spec_tag_match al ts it"
    by (simp add: spec_tag_match_def)
  show ?thesis
    using g dt tr n u y no ut ex by blast
qed

text \<open>
  Claim C5 holds of \<^verbatim>\<open>deleteTagged\<close> and \<^verbatim>\<open>trigger\<close>, and the code breaks it in
  \<^verbatim>\<open>getTagged\<close>: an item with a matching tag that is stored under the key
  \<^verbatim>\<open>__proto__\<close> is removed and counted, and is not returned. The store takes that
  key, since the constructor makes \<^verbatim>\<open>this.$\<close> with \<^verbatim>\<open>Object.create(null)\<close>; the
  result of \<^verbatim>\<open>getTagged\<close> is built in a plain \<^verbatim>\<open>{}\<close>, where the assignment to
  \<^verbatim>\<open>items['__proto__']\<close> stores no property.
\<close>

theorem getTagged_drops_proto_key:
  "set_item ''__proto__'' (JStr ''v'') \<lparr>expireIn = None, expireAt = None, opt_tags = PStr ''foo''\<rparr>
      100 [] = (Inr True, proto_key_store)
   \<and> getTagged (PStr ''foo'') \<lparr>opt_all = False, opt_meta = False\<rparr> proto_key_store =
       (Inr [], proto_key_store)
   \<and> getTagged (PStr ''foo'') \<lparr>opt_all = True, opt_meta = True\<rparr> proto_key_store =
       (Inr [], proto_key_store)
   \<and> deleteTagged (PStr ''foo'') \<lparr>opt_all = False, opt_meta = False\<rparr> proto_key_store =
       (Inr 1, [])
   \<and> trigger (PStr ''foo'') \<lparr>opt_all = False, opt_meta = False\<rparr> proto_key_store =
       (Inr 1, [])"
  by (simp add: set_item_def getTagged_def deleteTagged_def trigger_def deleteItemsTagged_def
      paramArray_def trim_def is_space_def param_truthy_def truthy_def object_keys_def
      proto_key_store_def)

section \<open>Which operations remove items\<close>

lemma keys_update_superset: "fst ` set s \<subseteq> fst ` set (AList.update k v s)"
proof -
  have "set (map fst s) \<subseteq> set (map fst (AList.update k v s))"
    by (auto simp: update_keys)
  then show ?thesis by simp
qed

text \<open>
  Claim C7, as the code has it. \<^verbatim>\<open>get\<close> leaves the store as it was in every branch,
  the stale ones included, so the item is still there with all its fields. No item is
  removed either by \<^verbatim>\<open>getTagged\<close>, by \<^verbatim>\<open>set\<close>, by \<^verbatim>\<open>keys\<close>, \<^verbatim>\<open>count\<close> and
  \<^verbatim>\<open>tags\<close> without \<^verbatim>\<open>validOnly\<close>, or by \<^verbatim>\<open>export\<close> with \<^verbatim>\<open>persistent\<close> or
  \<^verbatim>\<open>expired\<close>; and \<^verbatim>\<open>keys\<close>, \<^verbatim>\<open>count\<close> and \<^verbatim>\<open>tags\<close> with \<^verbatim>\<open>validOnly\<close> and the
  default \<^verbatim>\<open>export\<close> leave the store that \<^verbatim>\<open>deleteExpired\<close> leaves. The operations
  that are left, and can remove items, are \<^verbatim>\<open>deleteExpired\<close>, \<^verbatim>\<open>delete\<close>,
  \<^verbatim>\<open>deleteTagged\<close>, \<^verbatim>\<open>trigger\<close>, \<^verbatim>\<open>clear\<close>, \<^verbatim>\<open>import\<close> and \<^verbatim>\<open>dispose\<close>.
\<close>

theorem only_listed_operations_remove:
  "snd (get k opts now s) = s
   \<and> getMeta k (snd (get k opts now s)) = getMeta k s
   \<and> snd (getTagged tgs topts s) = s
   \<and> fst ` set s \<subseteq> fst ` set (snd (set_item k' p sopts now s))
   \<and> snd (keys False now s) = s
   \<and> snd (count False now s) = s
   \<and> snd (tags_method False now s) = s
   \<and> (opt_persistent eopts \<or> opt_expired eopts \<longrightarrow> snd (export eopts now s) = s)
   \<and> snd (keys True now s) = snd (deleteExpired now s)
   \<and> snd (count True now s) = snd (deleteExpired now s)
   \<and> snd (tags_method True now s) = snd (deleteExpired now s)
   \<and> (\<not> opt_persistent eopts \<and> \<not> opt_expired eopts \<longrightarrow>
        snd (export eopts now s) = snd (deleteExpired now s))"
proof -
  have 1: "snd (get k opts now s) = s"
    by (simp add: get_def split: option.splits)
  have 2: "snd (getTagged tgs topts s) = s"
    by (simp add: getTagged_def split: sum.splits)
  have 3: "fst ` set s \<subseteq> fst ` set (snd (set_item k' p sopts now s))"
    using keys_update_superset[of s k']
    by (cases "param_truthy (opt_tags sopts)"; cases "paramArray (opt_tags sopts)")
       (simp_all add: set_item_def)
  have 4: "snd (keys False now s) = s" "snd (count False now s) = s"
    "snd (tags_method False now s) = s"
    by (simp_all add: keys_def count_def tags_method_def)
  have 5: "opt_persistent eopts \<or> opt_expired eopts \<longrightarrow> snd (export eopts now s) = s"
    by (auto simp: export_def split: sum.splits)
  obtain r s' where sw: "deleteExpired now s = (r, s')" by (cases "deleteExpired now s")
  have 6: "snd (keys True now s) = snd (deleteExpired now s)"
    "snd (count True now s) = snd (deleteExpired now s)"
    "snd (tags_method True now s) = snd (deleteExpired now s)"
    unfolding sw by (cases r; simp add: keys_def count_def tags_method_def sw)+
  have 7: "\<not> opt_persistent eopts \<and> \<not> opt_expired eopts \<longrightarrow>
        snd (export eopts now s) = snd (deleteExpired now s)"
    unfolding sw by (cases r) (auto simp: export_def sw split: sum.splits)
  show ?thesis using 1 2 3 4 5 6 7 by simp
qed

theorem only_listed_operations_remove_witness:
  "get ''key3'' \<lparr>dflt = JUndefined, maxAge = None, force = False\<rparr> testTime test_state =
     (JNull, test_state)
   \<and> getMeta ''key3'' (snd (get ''key3'' \<lparr>dflt = JUndefined, maxAge = None, force = False\<rparr> testTime test_state)) =
       Some \<lparr>key = ''key3'', payload = JStr ''v3'', tags = TagsArr [''bar''],
                  expires = ExpNum (testTime - 3600), created = testTime - 7200\<rparr>
   \<and> snd (export \<lparr>opt_persistent = True, opt_expired = False, opt_object = False\<rparr>
          testTime test_state) = test_state"
proof -
  let ?o = "\<lparr>dflt = JUndefined, maxAge = None, force = False\<rparr>"
  let ?e = "\<lparr>opt_persistent = True, opt_expired = False, opt_object = False\<rparr>"
  have f: "fst (get ''key3'' ?o testTime test_state) = JNull"
    by (simp add: get_def test_state_def truthy_def defaultOrNull_def)
  have m: "getMeta ''key3'' test_state = Some \<lparr>key = ''key3'', payload = JStr ''v3'', tags = TagsArr [''bar''],
                  expires = ExpNum (testTime - 3600), created = testTime - 7200\<rparr>"
    by (simp add: getMeta_def test_state_def)
  have p: "opt_persistent ?e \<or> opt_expired ?e" by simp
  note t = only_listed_operations_remove[of "''key3''" ?o testTime test_state _ _ _ _ _ ?e]
  have a: "snd (get ''key3'' ?o testTime test_state) = test_state"
    using t[THEN conjunct1] .
  have b: "getMeta ''key3'' (snd (get ''key3'' ?o testTime test_state)) = getMeta ''key3'' test_state"
    using t[THEN conjunct2, THEN conjunct1] .
  have c: "snd (export ?e testTime test_state) = test_state"
    using t p by blast
  show ?thesis using f m a b c by (metis prod.collapse)
qed

text \<open>
  Claim C7 as stated fails in its list of the operations that remove items:
  \<^verbatim>\<open>import\<close> replaces the whole store, so importing an empty object removes every
  item, and \<^verbatim>\<open>dispose\<close> leaves no store at all.
\<close>

theorem import_removes_items_counterexample:
  "import (ImpObject (Items ObjectProto [])) (Items NullProto test_state) =
     (Inr True, Items ObjectProto [])
   \<and> dispose (Items NullProto test_state) = ((), NullValue)
   \<and> getMeta ''key1'' test_state =
       Some \<lparr>key = ''key1'', payload = JStr ''v1'', tags = TagsFalse,
             expires = ExpFalse, created = testTime - 3600\<rparr>"
  by (simp add: import_def dispose_def getMeta_def test_state_def)

section \<open>Deleting by key\<close>


















text \<open>
  On a plain object, as \<^verbatim>\<open>import\<close> installs it, a key that names a property of
  \<^verbatim>\<open>Object.prototype\<close> is counted as removed although the store holds no such item.
\<close>

lemma delete_counts_inherited_property:
  "delete (PStr ''toString'') ObjectProto test_state = (Inr 1, test_state)"
  by (simp add: delete_def paramArray_def trim_def is_space_def object_prototype_keys_def
      test_state_def)

section \<open>Export and import\<close>

text \<open>Writing a store of serializable payloads as JSON and reading it gives the store back.\<close>

lemma json_roundtrip:
  "(plain_value v \<longrightarrow> (\<exists>j. to_json v = Inr (Some j) \<and> from_json j = v))"
  "(plain_values vs \<longrightarrow> (\<exists>js. to_json_elems vs = Inr js \<and> from_json_elems js = vs))"
  "(plain_props ps \<longrightarrow> (\<exists>qs. to_json_props ps = Inr qs \<and> from_json_props qs = ps))"
  by (induction v and vs and ps rule: plain_value_plain_values_plain_props.induct) auto

lemma read_strings_map: "read_strings (map JsonStr a) = Some a"
  by (induction a) auto

lemma item_json_roundtrip:
  assumes "serializable (payload it)"
  shows "\<exists>j. item_json it = Inr j \<and> read_item j = Some it"
proof (cases "payload it = JUndefined")
  case True
  then show ?thesis
    by (cases it; cases "tags it"; cases "expires it")
       (simp_all add: item_json_def read_item_def read_tags_def read_expires_def read_strings_map)
next
  case False
  then have "plain_value (payload it)" using assms by (simp add: serializable_def)
  then obtain pj where pj: "to_json (payload it) = Inr (Some pj)" "from_json pj = payload it"
    using json_roundtrip(1) by blast
  then show ?thesis
    by (cases it; cases "tags it"; cases "expires it")
       (simp_all add: item_json_def read_item_def read_tags_def read_expires_def read_strings_map)
qed

lemma store_json_roundtrip:
  "\<forall>(k, it)\<in>set s. serializable (payload it) \<Longrightarrow>
   \<exists>qs. store_json_props s = Inr qs \<and> read_store qs = Some s"
proof (induction s)
  case Nil
  then show ?case by simp
next
  case (Cons kv s)
  obtain k it where kv: "kv = (k, it)" by (cases kv)
  from Cons.prems kv have "serializable (payload it)" by simp
  then obtain j where j: "item_json it = Inr j" "read_item j = Some it"
    using item_json_roundtrip by blast
  from Cons obtain qs where qs: "store_json_props s = Inr qs" "read_store qs = Some s"
    by auto
  show ?case using kv j qs by simp
qed

lemma stringify_parse:
  assumes "\<forall>(k, it)\<in>set s. serializable (payload it)"
  shows "\<exists>jt. stringify s = Inr jt \<and> parse jt = Inr (Items ObjectProto s)"
proof -
  from store_json_roundtrip[OF assms]
  obtain qs where "store_json_props s = Inr qs" "read_store qs = Some s" by blast
  then show ?thesis by (simp add: stringify_def parse_def)
qed

text \<open>
  Claim C3, as the code has it. For a store whose payloads are serializable,
  \<^verbatim>\<open>export\<close> without \<^verbatim>\<open>persistent\<close> and \<^verbatim>\<open>expired\<close> returns, as text or with
  \<^verbatim>\<open>object\<close> as a copy, and \<^verbatim>\<open>import\<close> of its result into any cache returns
  \<^verbatim>\<open>true\<close> and installs a plain object with the items of the exporting store after
  its sweep: exactly the keys whose \<^verbatim>\<open>expires\<close> is not a number other than 0 and
  strictly less than the current time, each with the item it had (payload, tags,
  expires and created); every item whose time is such a number is absent.
\<close>

theorem export_import_roundtrip:
  assumes "wf_store s"
    and "\<forall>(k, it)\<in>set s. serializable (payload it)"
    and "\<not> opt_persistent opts" and "\<not> opt_expired opts"
  shows "\<exists>out s1.
       export opts now s = (Inr out, s1)
     \<and> import (as_import_arg out) d = (Inr True, Items ObjectProto s1)
     \<and> (\<forall>k it. map_of s k = Some it \<longrightarrow>
           map_of s1 k =
             (if (\<exists>t. expires it = ExpNum t \<and> t \<noteq> 0 \<and> t < now) then None else Some it))
     \<and> (\<forall>k. map_of s k = None \<longrightarrow> map_of s1 k = None)
     \<and> fst ` set s1 =
          {k. \<exists>it. map_of s k = Some it \<and> \<not> (\<exists>t. expires it = ExpNum t \<and> t \<noteq> 0 \<and> t < now)}
     \<and> wf_store s1"
proof -
  let ?s' = "filter (\<lambda>(k, it). \<not> is_expired now it) s"
  have d: "distinct (map fst s)" using assms(1) by (simp add: wf_store_def)
  have wf': "wf_store ?s'" using d by (simp add: wf_store_def distinct_map_filter)
  have sw: "deleteExpired now s = (Inr (length (filter (\<lambda>(k, it). is_expired now it) s)), ?s')"
    by (rule deleteExpired_char[OF assms(1)])
  have "\<forall>(k, it)\<in>set ?s'. serializable (payload it)" using assms(2) by auto
  from stringify_parse[OF this]
  obtain jt where j: "stringify ?s' = Inr jt" "parse jt = Inr (Items ObjectProto ?s')"
    by blast
  let ?out = "if opt_object opts then AsObject (Items ObjectProto ?s') else AsJson jt"
  have ex: "export opts now s = (Inr ?out, ?s')"
    using assms(3,4) sw j by (simp add: export_def)
  have im: "import (as_import_arg ?out) d = (Inr True, Items ObjectProto ?s')"
    using j by (simp add: import_def as_import_arg_def)
  have ms': "\<And>k. map_of ?s' k =
      (case map_of s k of None \<Rightarrow> None | Some it \<Rightarrow> if \<not> is_expired now it then Some it else None)"
    by (rule map_of_filter_items[OF d])
  have 1: "\<forall>k it. map_of s k = Some it \<longrightarrow>
           map_of ?s' k =
             (if (\<exists>t. expires it = ExpNum t \<and> t \<noteq> 0 \<and> t < now) then None else Some it)"
    by (auto simp: ms' is_expired_iff[symmetric])
  have 2: "\<forall>k. map_of s k = None \<longrightarrow> map_of ?s' k = None"
    using ms' by simp
  have "fst ` set ?s' = {k. map_of ?s' k \<noteq> None}"
    by (auto simp: map_of_eq_None_iff)
  also have "\<dots> = {k. \<exists>it. map_of s k = Some it \<and>
                  \<not> (\<exists>t. expires it = ExpNum t \<and> t \<noteq> 0 \<and> t < now)}"
    unfolding ms' by (auto simp: is_expired_iff split: option.splits)
  finally have 3: "fst ` set ?s' =
          {k. \<exists>it. map_of s k = Some it \<and> \<not> (\<exists>t. expires it = ExpNum t \<and> t \<noteq> 0 \<and> t < now)}" .
  show ?thesis using ex im 1 2 3 wf' by blast
qed

theorem export_import_roundtrip_witness:
  "wf_store ((''obj'', \<lparr>key = ''obj'',
                 payload = JObj [(''a'', JArr [JNum 1, JNull]), (''b'', JStr ''x'')],
                 tags = TagsFalse, expires = ExpNum (testTime + 60), created = testTime\<rparr>)
              # test_state) \<and>
   (\<exists>out s1.
       export \<lparr>opt_persistent = False, opt_expired = False, opt_object = False\<rparr> testTime
         ((''obj'', \<lparr>key = ''obj'',
                 payload = JObj [(''a'', JArr [JNum 1, JNull]), (''b'', JStr ''x'')],
                 tags = TagsFalse, expires = ExpNum (testTime + 60), created = testTime\<rparr>)
              # test_state) = (Inr out, s1)
     \<and> import (as_import_arg out) (Items NullProto []) = (Inr True, Items ObjectProto s1)
     \<and> map_of s1 ''key3'' = None
     \<and> map_of s1 ''key6'' = map_of test_state ''key6''
     \<and> map_of s1 ''obj'' =
         Some \<lparr>key = ''obj'',
                 payload = JObj [(''a'', JArr [JNum 1, JNull]), (''b'', JStr ''x'')],
                 tags = TagsFalse, expires = ExpNum (testTime + 60), created = testTime\<rparr>)"
proof -
  let ?o = "\<lparr>opt_persistent = False, opt_expired = False, opt_object = False\<rparr>"
  let ?io = "\<lparr>key = ''obj'',
                 payload = JObj [(''a'', JArr [JNum 1, JNull]), (''b'', JStr ''x'')],
                 tags = TagsFalse, expires = ExpNum (testTime + 60), created = testTime\<rparr>"
  let ?s = "(''obj'', ?io) # test_state"
  let ?i3 = "\<lparr>key = ''key3'', payload = JStr ''v3'', tags = TagsArr [''bar''],
                  expires = ExpNum (testTime - 3600), created = testTime - 7200\<rparr>"
  let ?i6 = "\<lparr>key = ''key6'', payload = JStr ''v6'', tags = TagsArr [''on.boom''],
                  expires = ExpUndefined, created = testTime\<rparr>"
  have wf: "wf_store ?s" by (simp add: wf_store_def test_state_def)
  have ser: "\<forall>(k, it)\<in>set ?s. serializable (payload it)"
    by (simp add: test_state_def serializable_def)
  have o1: "\<not> opt_persistent ?o" and o2: "\<not> opt_expired ?o" by simp_all
  have k3: "map_of ?s ''key3'' = Some ?i3" by (simp add: test_state_def)
  have k6: "map_of ?s ''key6'' = Some ?i6" by (simp add: test_state_def)
  have k6': "map_of test_state ''key6'' = Some ?i6" by (simp add: test_state_def)
  have ko: "map_of ?s ''obj'' = Some ?io" by simp
  from export_import_roundtrip[OF wf ser o1 o2, of testTime "Items NullProto []"]
  obtain out s1 where ex: "export ?o testTime ?s = (Inr out, s1)"
    and im: "import (as_import_arg out) (Items NullProto []) = (Inr True, Items ObjectProto s1)"
    and m: "\<forall>k it. map_of ?s k = Some it \<longrightarrow>
           map_of s1 k =
             (if (\<exists>t. expires it = ExpNum t \<and> t \<noteq> 0 \<and> t < testTime) then None else Some it)"
    by blast
  have a: "map_of s1 ''key3'' = None"
    using m[rule_format, OF k3] by (simp add: testTime_def)
  have b: "map_of s1 ''key6'' = map_of test_state ''key6''"
    using m[rule_format, OF k6] k6' by simp
  have c: "map_of s1 ''obj'' = Some ?io"
    using m[rule_format, OF ko] by simp
  show ?thesis using wf ex im a b c by blast
qed

text \<open>
  Claim C3 as stated fails on an item whose \<^verbatim>\<open>expires\<close> is the timestamp 0: at time
  200 it has expired, and it is exported and imported all the same, because the sweep
  that \<^verbatim>\<open>export\<close> runs keeps it.
\<close>

theorem export_import_timestamp_zero_counterexample:
  "export \<lparr>opt_persistent = False, opt_expired = False, opt_object = False\<rparr> 200 epoch_store =
     (Inr (AsJson (JsonText (JsonObj
        [(''k'', JsonObj [(''key'', JsonStr ''k''), (''payload'', JsonStr ''v''),
                          (''tags'', JsonBool False), (''expires'', JsonNum 0),
                          (''created'', JsonNum 100)])]))),
      epoch_store)
   \<and> import (ImpString (JsonText (JsonObj
        [(''k'', JsonObj [(''key'', JsonStr ''k''), (''payload'', JsonStr ''v''),
                          (''tags'', JsonBool False), (''expires'', JsonNum 0),
                          (''created'', JsonNum 100)])])))
        (Items NullProto []) =
     (Inr True, Items ObjectProto epoch_store)
   \<and> map_of epoch_store ''k'' =
       Some \<lparr>key = ''k'', payload = JStr ''v'', tags = TagsFalse,
             expires = ExpNum 0, created = 100\<rparr>"
  by (simp add: export_def import_def epoch_store_def stringify_def parse_def
      item_json_def read_item_def read_tags_def read_expires_def
      deleteExpired_def object_keys_def is_expired_def)

end
